theory Spec2Isabelle
  imports Complex_Main "HOL-Library.Signed_Division" "HOL-Library.Multiset"
begin

section \<open>The multi-level feedback scheduler of code/threads/scheduler.cc\<close>

subsection \<open>Thread descriptors and the kernel state\<close>

text \<open>
  Modelled from the spec: the thread descriptor is declared in thread.h, which is not part
  of the sources at hand. The scheduler reaches it through \<open>setStatus\<close>, \<open>checkPriority\<close>,
  \<open>checkT\<close>/\<open>setT\<close>, \<open>checkTempTick\<close>/\<open>setTempTick\<close>, \<open>setLastExecTick\<close>, \<open>getID\<close>,
  \<open>space\<close> and \<open>CheckOverflow\<close>. The status values are the spec's
  \<open>{NEW, READY, RUNNING, BLOCKED, TERMINATED}\<close>.
\<close>

datatype ThreadStatus = NEW | READY | RUNNING | BLOCKED | TERMINATED

text \<open>
  Modelled from the spec: \<open>priority\<close> is an integer, the predicted burst \<open>T\<close> a real, and
  \<open>tempTick\<close> (the accumulated burst) a count of ticks. \<open>Scheduler::Run\<close> prints
  \<open>checkTempTick()\<close> with the conversion \<open>%d\<close>, so \<open>tempTick\<close> is a C++ \<open>int\<close>.
  \<open>stackOK\<close> stands for the stack sentinel that \<open>CheckOverflow\<close> asserts, and \<open>space\<close> is
  the pointer to the user address space (\<open>None\<close> for \<open>NULL\<close>).
\<close>

record Thread =
  ID :: int
  priority :: int
  T :: real
  tempTick :: int
  lastExecTick :: int
  status :: ThreadStatus
  space :: "nat option"
  stackOK :: bool

datatype IntStatus = IntOff | IntOn

text \<open>The three \<open>ASSERT\<close>s of the scheduler, and the one inside \<open>CheckOverflow\<close>.\<close>

datatype assertion =
    Interrupts_off
  | ToBeDestroyed_is_NULL
  | Stack_fencepost

text \<open>
  A failed \<open>ASSERT\<close> aborts the kernel. Dereferencing a pointer that addresses no live
  thread object is undefined behaviour in C++; the model reports it as \<open>InvalidPointer\<close>.
\<close>

datatype error = AssertionFailed assertion | InvalidPointer

text \<open>Calls into collaborators whose effect lies outside the scheduler.\<close>

datatype call =
    SaveUserState nat
  | SpaceSaveState nat
  | RestoreUserState nat
  | SpaceRestoreState nat
  | SWITCH nat nat

text \<open>
  The scheduler object together with the parts of the global \<open>kernel\<close> object it touches.
  \<open>Thread *\<close> values are addresses into the store \<open>threads\<close>; a pointer that the code
  compares with \<open>NULL\<close> is an \<open>option\<close>. The queues are the three \<open>std::list<Thread *>\<close>.
  \<open>stdout\<close> holds what \<open>printf\<close> has written, one entry per call.
\<close>

record Kernel =
  threads :: "nat \<rightharpoonup> Thread"
  currentThread :: nat
  level :: IntStatus
  totalTicks :: int
  alarmStat :: bool
  L1Queue :: "nat list"
  L2Queue :: "nat list"
  L3Queue :: "nat list"
  toBeDestroyed :: "nat option"
  enablePreemptOnce :: bool
  stdout :: "string list"
  calls :: "call list"

subsection \<open>Sequencing fallible steps\<close>

definition and_then :: "error + 'a \<Rightarrow> ('a \<Rightarrow> error + 'b) \<Rightarrow> error + 'b" where
  "and_then m f = (case m of Inl e \<Rightarrow> Inl e | Inr x \<Rightarrow> f x)"

definition deref :: "nat \<Rightarrow> Kernel \<Rightarrow> error + Thread" where
  "deref p s = (case threads s p of None \<Rightarrow> Inl InvalidPointer | Some th \<Rightarrow> Inr th)"

definition update_thread :: "nat \<Rightarrow> (Thread \<Rightarrow> Thread) \<Rightarrow> Kernel \<Rightarrow> error + Kernel" where
  "update_thread p f s =
     (case threads s p of
        None \<Rightarrow> Inl InvalidPointer
      | Some th \<Rightarrow> Inr (s\<lparr>threads := (threads s)(p \<mapsto> f th)\<rparr>))"

definition setStatus :: "nat \<Rightarrow> ThreadStatus \<Rightarrow> Kernel \<Rightarrow> error + Kernel" where
  "setStatus p st = update_thread p (\<lambda>th. th\<lparr>status := st\<rparr>)"

definition setT :: "nat \<Rightarrow> real \<Rightarrow> Kernel \<Rightarrow> error + Kernel" where
  "setT p v = update_thread p (\<lambda>th. th\<lparr>T := v\<rparr>)"

definition setLastExecTick :: "nat \<Rightarrow> int \<Rightarrow> Kernel \<Rightarrow> error + Kernel" where
  "setLastExecTick p v = update_thread p (\<lambda>th. th\<lparr>lastExecTick := v\<rparr>)"

definition setTempTick :: "nat \<Rightarrow> int \<Rightarrow> Kernel \<Rightarrow> error + Kernel" where
  "setTempTick p v = update_thread p (\<lambda>th. th\<lparr>tempTick := v\<rparr>)"

text \<open>The getters, read through a pointer that has been checked to be live.\<close>

definition checkPriority :: "Kernel \<Rightarrow> nat \<Rightarrow> int" where
  "checkPriority s p = priority (the (threads s p))"

definition checkT :: "Kernel \<Rightarrow> nat \<Rightarrow> real" where
  "checkT s p = T (the (threads s p))"

definition all_live :: "Kernel \<Rightarrow> nat list \<Rightarrow> bool" where
  "all_live s ps = list_all (\<lambda>p. threads s p \<noteq> None) ps"

subsection \<open>Trace output\<close>

definition digit_char :: "nat \<Rightarrow> char" where
  "digit_char d = ''0123456789'' ! d"

fun fmt_nat :: "nat \<Rightarrow> string" where
  "fmt_nat n = (if n < 10 then [digit_char n] else fmt_nat (n div 10) @ [digit_char (n mod 10)])"

declare fmt_nat.simps [simp del]

text \<open>The conversion \<open>%d\<close> of \<open>printf\<close>.\<close>

definition fmt_d :: "int \<Rightarrow> string" where
  "fmt_d i = (if i < 0 then CHR ''-'' # fmt_nat (nat (- i)) else fmt_nat (nat i))"

definition msg_inserted :: "int \<Rightarrow> int \<Rightarrow> string \<Rightarrow> string" where
  "msg_inserted tick tid q =
     ''Tick '' @ fmt_d tick @ '': Thread '' @ fmt_d tid @ '' is inserted into queue '' @ q @ [CHR 0x0A]"

definition msg_removed :: "int \<Rightarrow> int \<Rightarrow> string \<Rightarrow> string" where
  "msg_removed tick tid q =
     ''Tick '' @ fmt_d tick @ '': Thread '' @ fmt_d tid @ '' is removed from queue '' @ q @ [CHR 0x0A]"

definition msg_selected :: "int \<Rightarrow> int \<Rightarrow> string" where
  "msg_selected tick tid =
     ''Tick '' @ fmt_d tick @ '': Thread '' @ fmt_d tid @ '' is now selected for execution'' @ [CHR 0x0A]"

definition msg_replaced :: "int \<Rightarrow> int \<Rightarrow> int \<Rightarrow> string" where
  "msg_replaced tick tid n =
     ''Tick '' @ fmt_d tick @ '': Thread '' @ fmt_d tid @ '' is replaced, and it has executed ''
       @ fmt_d n @ '' ticks'' @ [CHR 0x0A]"

definition printf :: "string \<Rightarrow> Kernel \<Rightarrow> Kernel" where
  "printf line s = s\<lparr>stdout := stdout s @ [line]\<rparr>"

subsection \<open>The comparators and \<open>std::list::sort\<close>\<close>

definition cmpL2 :: "Kernel \<Rightarrow> nat \<Rightarrow> nat \<Rightarrow> bool" where
  "cmpL2 s th1 th2 = (checkPriority s th1 > checkPriority s th2)"

definition cmpL1 :: "Kernel \<Rightarrow> nat \<Rightarrow> nat \<Rightarrow> bool" where
  "cmpL1 s th1 th2 = (checkT s th1 < checkT s th2)"

text \<open>
  \<open>std::list::sort(comp)\<close> belongs to the C++ standard library, whose contract is a stable
  sort: elements that \<open>comp\<close> does not order keep their relative position. For a comparator
  that is a strict weak order the result is determined by that contract; the insertion sort
  below computes it. An element is put in front of the first later element that is not
  strictly before it.
\<close>

fun list_insert :: "('a \<Rightarrow> 'a \<Rightarrow> bool) \<Rightarrow> 'a \<Rightarrow> 'a list \<Rightarrow> 'a list" where
  "list_insert cmp x [] = [x]"
| "list_insert cmp x (y # ys) = (if cmp y x then y # list_insert cmp x ys else x # y # ys)"

fun list_sort :: "('a \<Rightarrow> 'a \<Rightarrow> bool) \<Rightarrow> 'a list \<Rightarrow> 'a list" where
  "list_sort cmp [] = []"
| "list_sort cmp (x # xs) = list_insert cmp x (list_sort cmp xs)"

text \<open>
  Sorting a queue calls the comparator, which dereferences the queue's entries (every entry,
  as soon as the queue has two of them).
\<close>

definition sort_queue :: "(Kernel \<Rightarrow> nat \<Rightarrow> nat \<Rightarrow> bool) \<Rightarrow> nat list \<Rightarrow> Kernel \<Rightarrow> error + nat list" where
  "sort_queue cmp q s =
     (if length q < 2 \<or> all_live s q then Inr (list_sort (cmp s) q) else Inl InvalidPointer)"

subsection \<open>Scheduler::ReadyToRun\<close>

text \<open>
  Line 79: unless the admitted thread is the running one, the running thread's predictor is
  recomputed from its own \<open>tempTick\<close> and \<open>T\<close>. \<open>checkTempTick() / 2\<close> divides two C++
  \<open>int\<close>s and so truncates towards zero (\<open>sdiv\<close>).
\<close>

definition update_predictor :: "nat \<Rightarrow> Kernel \<Rightarrow> error + Kernel" where
  "update_predictor thread s =
     (if currentThread s \<noteq> thread
      then and_then (deref (currentThread s) s) (\<lambda>cur.
             setT (currentThread s) (real_of_int (tempTick cur sdiv 2) + T cur / 2) s)
      else Inr s)"

text \<open>Lines 81 to 97: the band of the thread's priority selects the queue.\<close>

definition enqueue :: "nat \<Rightarrow> Kernel \<Rightarrow> error + Kernel" where
  "enqueue thread s =
     (if checkPriority s thread < 50 then
        (let s1 = printf (msg_inserted (totalTicks s) (ID (the (threads s thread))) ''L3'') s
         in Inr (s1\<lparr>L3Queue := L3Queue s1 @ [thread]\<rparr>))
      else if checkPriority s thread < 100 then
        (let s1 = printf (msg_inserted (totalTicks s) (ID (the (threads s thread))) ''L2'') s;
             s2 = s1\<lparr>L2Queue := L2Queue s1 @ [thread]\<rparr>
         in and_then (sort_queue cmpL2 (L2Queue s2) s2) (\<lambda>q.
              let s3 = s2\<lparr>L2Queue := q\<rparr>
              in Inr (if currentThread s3 \<noteq> thread then s3\<lparr>enablePreemptOnce := True\<rparr> else s3)))
      else
        (let s1 = printf (msg_inserted (totalTicks s) (ID (the (threads s thread))) ''L1'') s;
             s2 = s1\<lparr>L1Queue := L1Queue s1 @ [thread]\<rparr>
         in and_then (sort_queue cmpL1 (L1Queue s2) s2) (\<lambda>q.
              let s3 = s2\<lparr>L1Queue := q\<rparr>
              in Inr (if currentThread s3 \<noteq> thread then s3\<lparr>enablePreemptOnce := True\<rparr> else s3))))"

definition ReadyToRun :: "nat \<Rightarrow> Kernel \<Rightarrow> error + Kernel" where
  "ReadyToRun thread s =
     (if level s \<noteq> IntOff then Inl (AssertionFailed Interrupts_off)
      else
        and_then (setStatus thread READY s) (\<lambda>s1.
        and_then (update_predictor thread s1) (\<lambda>s2.
        enqueue thread s2)))"

subsection \<open>Scheduler::FindNextToRun and Scheduler::PureFindNext\<close>

definition FindNextToRun :: "Kernel \<Rightarrow> error + (nat option \<times> Kernel)" where
  "FindNextToRun s =
     (if level s \<noteq> IntOff then Inl (AssertionFailed Interrupts_off)
      else if L1Queue s = [] \<and> L2Queue s = [] \<and> L3Queue s = [] then Inr (None, s)
      else if L1Queue s = [] \<and> L2Queue s = [] then
        (let s1 = s\<lparr>alarmStat := True\<rparr>;
             thread = hd (L3Queue s1);
             s2 = s1\<lparr>L3Queue := tl (L3Queue s1)\<rparr>
         in and_then (deref thread s2) (\<lambda>th.
              Inr (Some thread, printf (msg_removed (totalTicks s2) (ID th) ''L3'') s2)))
      else if L1Queue s = [] then
        (let s1 = s\<lparr>alarmStat := False\<rparr>;
             thread = hd (L2Queue s1);
             s2 = s1\<lparr>L2Queue := tl (L2Queue s1)\<rparr>
         in and_then (deref thread s2) (\<lambda>th.
              Inr (Some thread, printf (msg_removed (totalTicks s2) (ID th) ''L2'') s2)))
      else
        (let s1 = s\<lparr>alarmStat := False\<rparr>;
             thread = hd (L1Queue s1);
             s2 = s1\<lparr>L1Queue := tl (L1Queue s1)\<rparr>
         in and_then (deref thread s2) (\<lambda>th.
              Inr (Some thread, printf (msg_removed (totalTicks s2) (ID th) ''L1'') s2))))"

definition PureFindNext :: "Kernel \<Rightarrow> error + (nat option \<times> Kernel)" where
  "PureFindNext s =
     (if level s \<noteq> IntOff then Inl (AssertionFailed Interrupts_off)
      else if L1Queue s = [] \<and> L2Queue s = [] \<and> L3Queue s = [] then Inr (None, s)
      else if L1Queue s = [] \<and> L2Queue s = [] then Inr (Some (hd (L3Queue s)), s)
      else if L1Queue s = [] then Inr (Some (hd (L2Queue s)), s)
      else Inr (Some (hd (L1Queue s)), s))"

subsection \<open>Scheduler::CheckToBeDestroyed and Scheduler::Run\<close>

text \<open>
  Modelled from the spec: \<open>delete toBeDestroyed\<close> runs the destructor of \<open>Thread\<close>
  (thread.cc, not part of the sources at hand), which "destroys the pending thread
  (releasing its kernel stack and descriptor)": the object leaves the store.
\<close>

definition CheckToBeDestroyed :: "Kernel \<Rightarrow> error + Kernel" where
  "CheckToBeDestroyed s =
     (case toBeDestroyed s of
        None \<Rightarrow> Inr s
      | Some p \<Rightarrow>
          (case threads s p of
             None \<Rightarrow> Inl InvalidPointer
           | Some th \<Rightarrow> Inr (s\<lparr>threads := (threads s)(p := None), toBeDestroyed := None\<rparr>)))"

text \<open>
  Modelled from the spec: \<open>CheckOverflow\<close> (thread.cc) is the "sentinel check, assertion
  on failure".
\<close>

definition CheckOverflow :: "nat \<Rightarrow> Kernel \<Rightarrow> error + Kernel" where
  "CheckOverflow p s =
     and_then (deref p s) (\<lambda>th.
       if stackOK th then Inr s else Inl (AssertionFailed Stack_fencepost))"

text \<open>
  \<open>Run\<close> up to and including the call of \<open>SWITCH\<close> (lines 187 to 218). Control comes back
  from \<open>SWITCH\<close> only when a later dispatch selects the old thread again.
\<close>

definition Run_to_SWITCH :: "nat \<Rightarrow> bool \<Rightarrow> Kernel \<Rightarrow> error + Kernel" where
  "Run_to_SWITCH nextThread finishing s =
     (let oldThread = currentThread s in
      if level s \<noteq> IntOff then Inl (AssertionFailed Interrupts_off)
      else
        and_then
          (if finishing then
             (if toBeDestroyed s \<noteq> None then Inl (AssertionFailed ToBeDestroyed_is_NULL)
              else Inr (s\<lparr>toBeDestroyed := Some oldThread\<rparr>))
           else Inr s) (\<lambda>s1.
        and_then (deref oldThread s1) (\<lambda>old.
        let s2 = (case space old of
                    None \<Rightarrow> s1
                  | Some sp \<Rightarrow> s1\<lparr>calls := calls s1 @ [SaveUserState oldThread, SpaceSaveState sp]\<rparr>)
        in
        and_then (CheckOverflow oldThread s2) (\<lambda>s3.
        let s4 = s3\<lparr>currentThread := nextThread\<rparr> in
        and_then (setStatus nextThread RUNNING s4) (\<lambda>s5.
        and_then (deref nextThread s5) (\<lambda>nxt.
        let s6 = printf (msg_selected (totalTicks s5) (ID nxt)) s5 in
        and_then (deref oldThread s6) (\<lambda>old1.
        let s7 = printf (msg_replaced (totalTicks s6) (ID old1) (tempTick old1)) s6 in
        and_then (setLastExecTick oldThread (totalTicks s7) s7) (\<lambda>s8.
        and_then (setTempTick oldThread 0 s8) (\<lambda>s9.
        Inr (s9\<lparr>calls := calls s9 @ [SWITCH oldThread nextThread]\<rparr>))))))))))"

text \<open>\<open>Run\<close> after \<open>SWITCH\<close> has returned on the stack of \<open>oldThread\<close> (lines 223 to 234).\<close>

definition Run_from_SWITCH :: "nat \<Rightarrow> Kernel \<Rightarrow> error + Kernel" where
  "Run_from_SWITCH oldThread s =
     (if level s \<noteq> IntOff then Inl (AssertionFailed Interrupts_off)
      else
        and_then (CheckToBeDestroyed s) (\<lambda>s1.
        and_then (deref oldThread s1) (\<lambda>old.
        Inr (case space old of
               None \<Rightarrow> s1
             | Some sp \<Rightarrow> s1\<lparr>calls := calls s1 @ [RestoreUserState oldThread, SpaceRestoreState sp]\<rparr>))))"

subsection \<open>Well-formed states\<close>

text \<open>Every entry of the three ready queues addresses a live thread object.\<close>

definition ready_live :: "Kernel \<Rightarrow> bool" where
  "ready_live s = all_live s (L1Queue s @ L2Queue s @ L3Queue s)"

text \<open>
  What a call \<open>ReadyToRun(thread)\<close> relies on: interrupts are off, and \<open>thread\<close>, the running
  thread and the queued threads are live objects.
\<close>

definition admissible :: "nat \<Rightarrow> Kernel \<Rightarrow> bool" where
  "admissible thread s =
     (level s = IntOff \<and> threads s thread \<noteq> None \<and> threads s (currentThread s) \<noteq> None
      \<and> ready_live s)"

text \<open>
  The store after lines 77 and 79 of \<open>ReadyToRun(thread)\<close>: the status of \<open>thread\<close> is
  \<open>READY\<close> and, if \<open>thread\<close> is not the running thread, the running thread has its new \<open>T\<close>.
\<close>

definition store_77_79 :: "nat \<Rightarrow> Kernel \<Rightarrow> nat \<rightharpoonup> Thread" where
  "store_77_79 thread s =
     (let h1 = (threads s)(thread \<mapsto> (the (threads s thread))\<lparr>status := READY\<rparr>);
          cur = the (h1 (currentThread s))
      in if currentThread s \<noteq> thread
         then h1(currentThread s \<mapsto> cur\<lparr>T := real_of_int (tempTick cur sdiv 2) + T cur / 2\<rparr>)
         else h1)"

subsection \<open>The ordering disciplines of the queues\<close>

text \<open>
  L1 is in ascending order of \<open>T\<close>, L2 in descending order of \<open>priority\<close>: no entry is
  followed, anywhere behind it, by one that the queue's comparator puts strictly before it.
\<close>

definition L1_ordered :: "Kernel \<Rightarrow> bool" where
  "L1_ordered s = sorted_wrt (\<lambda>p q. checkT s p \<le> checkT s q) (L1Queue s)"

definition L2_ordered :: "Kernel \<Rightarrow> bool" where
  "L2_ordered s = sorted_wrt (\<lambda>p q. checkPriority s q \<le> checkPriority s p) (L2Queue s)"

subsection \<open>Example states\<close>

text \<open>
  A store with the running thread 0 and the threads A, B, C of the spec's scenario 3
  (addresses 1, 2, 3), an L2 thread, two L3 threads (one of them terminated), threads 5
  and 7 whose \<open>tempTick\<close> equals their \<open>T\<close>, and a second thread with the predicted
  burst of C.
\<close>

definition ex_store :: "nat \<rightharpoonup> Thread" where
  "ex_store =
     [0 \<mapsto> \<lparr>ID = 0, priority = 0, T = 0, tempTick = 0, lastExecTick = 0,
            status = RUNNING, space = None, stackOK = True\<rparr>,
      1 \<mapsto> \<lparr>ID = 1, priority = 120, T = 50, tempTick = 20, lastExecTick = 0,
            status = NEW, space = None, stackOK = True\<rparr>,
      2 \<mapsto> \<lparr>ID = 2, priority = 130, T = 10, tempTick = 0, lastExecTick = 0,
            status = NEW, space = None, stackOK = True\<rparr>,
      3 \<mapsto> \<lparr>ID = 3, priority = 100, T = 30, tempTick = 0, lastExecTick = 0,
            status = NEW, space = None, stackOK = True\<rparr>,
      4 \<mapsto> \<lparr>ID = 4, priority = 60, T = 0, tempTick = 0, lastExecTick = 0,
            status = NEW, space = None, stackOK = True\<rparr>,
      5 \<mapsto> \<lparr>ID = 5, priority = 30, T = 40, tempTick = 40, lastExecTick = 0,
            status = NEW, space = None, stackOK = True\<rparr>,
      6 \<mapsto> \<lparr>ID = 6, priority = 10, T = 0, tempTick = 0, lastExecTick = 0,
            status = TERMINATED, space = None, stackOK = True\<rparr>,
      7 \<mapsto> \<lparr>ID = 7, priority = 110, T = 3, tempTick = 3, lastExecTick = 0,
            status = RUNNING, space = None, stackOK = True\<rparr>,
      8 \<mapsto> \<lparr>ID = 8, priority = 105, T = 30, tempTick = 0, lastExecTick = 0,
            status = NEW, space = None, stackOK = True\<rparr>]"

text \<open>The scheduler as \<open>Scheduler::Scheduler\<close> leaves it, with thread 0 running.\<close>

definition ex_boot :: Kernel where
  "ex_boot =
     \<lparr>threads = ex_store, currentThread = 0, level = IntOff, totalTicks = 0,
      alarmStat = False, L1Queue = [], L2Queue = [], L3Queue = [],
      toBeDestroyed = None, enablePreemptOnce = False, stdout = [], calls = []\<rparr>"

text \<open>B, C and A wait in L1, thread 4 in L2 and thread 5 in L3.\<close>

definition ex_ready :: Kernel where
  "ex_ready = ex_boot\<lparr>L1Queue := [2, 3, 1], L2Queue := [4], L3Queue := [5], totalTicks := 200\<rparr>"

text \<open>A has been running for 20 ticks and no thread is ready.\<close>

definition ex_A_alone :: Kernel where
  "ex_A_alone = ex_boot\<lparr>currentThread := 1, totalTicks := 20\<rparr>"

text \<open>A has been running for 20 ticks while B and C wait in L1.\<close>

definition ex_A_running :: Kernel where
  "ex_A_running = ex_boot\<lparr>currentThread := 1, L1Queue := [2, 3], totalTicks := 20\<rparr>"

section \<open>Properties\<close>

subsection \<open>The steps of ReadyToRun\<close>

lemma list_insert_insort_key:
  fixes f :: "'a \<Rightarrow> 'b::linorder"
  shows "list_insert (\<lambda>a b. f a < f b) x xs = insort_key f x xs"
  by (induction xs) auto

lemma list_sort_sort_key:
  fixes f :: "'a \<Rightarrow> 'b::linorder"
  shows "list_sort (\<lambda>a b. f a < f b) xs = sort_key f xs"
  by (induction xs) (simp_all add: list_insert_insort_key)

lemma list_sort_cmpL1: "list_sort (cmpL1 s) q = sort_key (checkT s) q"
  using list_sort_sort_key [of "checkT s" q] by (simp add: cmpL1_def [abs_def])

lemma list_sort_cmpL2: "list_sort (cmpL2 s) q = sort_key (\<lambda>p. - checkPriority s p) q"
  using list_sort_sort_key [of "\<lambda>p. - checkPriority s p" q] by (simp add: cmpL2_def [abs_def])

lemma and_then_Inr [simp]: "and_then (Inr x) f = f x"
  by (simp add: and_then_def)

lemma and_then_Inl [simp]: "and_then (Inl e) f = Inl e"
  by (simp add: and_then_def)

lemma update_thread_Some:
  "threads s p = Some th \<Longrightarrow> update_thread p f s = Inr (s\<lparr>threads := (threads s)(p \<mapsto> f th)\<rparr>)"
  by (simp add: update_thread_def)

lemma deref_Some: "threads s p = Some th \<Longrightarrow> deref p s = Inr th"
  by (simp add: deref_def)

lemma update_predictor_same: "currentThread s = t \<Longrightarrow> update_predictor t s = Inr s"
  by (simp add: update_predictor_def)

lemma update_predictor_other:
  "currentThread s \<noteq> t \<Longrightarrow> threads s (currentThread s) = Some cur \<Longrightarrow>
   update_predictor t s =
     Inr (s\<lparr>threads := (threads s)(currentThread s \<mapsto>
            cur\<lparr>T := real_of_int (tempTick cur sdiv 2) + T cur / 2\<rparr>)\<rparr>)"
  by (simp add: update_predictor_def deref_Some setT_def update_thread_Some)

lemma enqueue_L3:
  "checkPriority s t < 50 \<Longrightarrow>
   enqueue t s =
     Inr (s\<lparr>stdout := stdout s @ [msg_inserted (totalTicks s) (ID (the (threads s t))) ''L3''],
            L3Queue := L3Queue s @ [t]\<rparr>)"
  by (simp add: enqueue_def printf_def Let_def)

lemma enqueue_L2:
  "\<not> checkPriority s t < 50 \<Longrightarrow> checkPriority s t < 100 \<Longrightarrow> all_live s (L2Queue s @ [t]) \<Longrightarrow>
   enqueue t s =
     Inr (s\<lparr>stdout := stdout s @ [msg_inserted (totalTicks s) (ID (the (threads s t))) ''L2''],
            L2Queue := list_sort (cmpL2 s) (L2Queue s @ [t]),
            enablePreemptOnce := (enablePreemptOnce s \<or> currentThread s \<noteq> t)\<rparr>)"
  by (simp add: enqueue_def printf_def Let_def sort_queue_def all_live_def cmpL2_def [abs_def] checkPriority_def [abs_def])

lemma enqueue_L1:
  "\<not> checkPriority s t < 100 \<Longrightarrow> all_live s (L1Queue s @ [t]) \<Longrightarrow>
   enqueue t s =
     Inr (s\<lparr>stdout := stdout s @ [msg_inserted (totalTicks s) (ID (the (threads s t))) ''L1''],
            L1Queue := list_sort (cmpL1 s) (L1Queue s @ [t]),
            enablePreemptOnce := (enablePreemptOnce s \<or> currentThread s \<noteq> t)\<rparr>)"
  by (simp add: enqueue_def printf_def Let_def sort_queue_def all_live_def cmpL1_def [abs_def] checkT_def [abs_def] checkPriority_def [abs_def])

lemma ReadyToRun_steps:
  assumes "level s = IntOff" "threads s t \<noteq> None" "threads s (currentThread s) \<noteq> None"
  shows "ReadyToRun t s = enqueue t (s\<lparr>threads := store_77_79 t s\<rparr>)"
proof -
  from assms obtain th where th: "threads s t = Some th" by auto
  define s1 where "s1 = s\<lparr>threads := (threads s)(t \<mapsto> th\<lparr>status := READY\<rparr>)\<rparr>"
  have st: "setStatus t READY s = Inr s1"
    by (simp add: setStatus_def update_thread_Some [OF th] s1_def)
  have up: "update_predictor t s1 = Inr (s\<lparr>threads := store_77_79 t s\<rparr>)"
  proof (cases "currentThread s = t")
    case True
    then show ?thesis
      by (simp add: update_predictor_same s1_def store_77_79_def th)
  next
    case False
    from assms obtain c where c: "threads s (currentThread s) = Some c" by auto
    have "currentThread s1 \<noteq> t" "threads s1 (currentThread s1) = Some c"
      using False c by (simp_all add: s1_def)
    from update_predictor_other [OF this] show ?thesis
      using False c by (simp add: s1_def store_77_79_def th)
  qed
  show ?thesis
    using assms(1) by (simp add: ReadyToRun_def st up)
qed

lemma store_77_79_None: 
  "threads s t \<noteq> None \<Longrightarrow> threads s (currentThread s) \<noteq> None \<Longrightarrow> store_77_79 t s p = None \<longleftrightarrow> threads s p = None"
  by (auto simp add: store_77_79_def Let_def)

lemma store_77_79_priority:
  "threads s t \<noteq> None \<Longrightarrow> threads s (currentThread s) \<noteq> None \<Longrightarrow> priority (the (store_77_79 t s p)) = priority (the (threads s p))"
  by (auto simp add: store_77_79_def Let_def)

lemma store_77_79_ID:
  "threads s t \<noteq> None \<Longrightarrow> threads s (currentThread s) \<noteq> None \<Longrightarrow> ID (the (store_77_79 t s p)) = ID (the (threads s p))"
  by (auto simp add: store_77_79_def Let_def)

lemma store_77_79_status:
  "status (the (store_77_79 t s p)) = (if p = t then READY else status (the (threads s p)))"
  by (auto simp add: store_77_79_def Let_def)

lemma store_77_79_T:
  "T (the (store_77_79 t s p)) =
     (if p = currentThread s \<and> p \<noteq> t
      then real_of_int (tempTick (the (threads s p)) sdiv 2) + T (the (threads s p)) / 2
      else T (the (threads s p)))"
  by (auto simp add: store_77_79_def Let_def)

lemma ready_liveD:
  "ready_live s \<Longrightarrow> all_live s (L1Queue s) \<and> all_live s (L2Queue s) \<and> all_live s (L3Queue s)"
  by (simp add: ready_live_def all_live_def)

lemma all_live_77_79:
  assumes "threads s t \<noteq> None" "threads s (currentThread s) \<noteq> None"
  shows "all_live (s\<lparr>threads := store_77_79 t s\<rparr>) q = all_live s q"
  using assms by (simp add: all_live_def store_77_79_None)

lemma checkPriority_77_79:
  assumes "threads s t \<noteq> None" "threads s (currentThread s) \<noteq> None"
  shows "checkPriority (s\<lparr>threads := store_77_79 t s\<rparr>) p = checkPriority s p"
  using assms by (simp add: checkPriority_def store_77_79_priority)

lemma ReadyToRun_L3:
  assumes "admissible t s" "checkPriority s t < 50"
  shows "ReadyToRun t s =
     Inr (s\<lparr>threads := store_77_79 t s,
            stdout := stdout s @ [msg_inserted (totalTicks s) (ID (the (threads s t))) ''L3''],
            L3Queue := L3Queue s @ [t]\<rparr>)"
proof -
  from assms(1) have a: "level s = IntOff" "threads s t \<noteq> None" "threads s (currentThread s) \<noteq> None"
    by (simp_all add: admissible_def)
  have "checkPriority (s\<lparr>threads := store_77_79 t s\<rparr>) t < 50"
    using assms(2) by (simp add: checkPriority_77_79 a)
  from enqueue_L3 [OF this] show ?thesis
    by (simp add: ReadyToRun_steps a store_77_79_ID)
qed

lemma ReadyToRun_L2:
  assumes "admissible t s" "\<not> checkPriority s t < 50" "checkPriority s t < 100"
  shows "ReadyToRun t s =
     Inr (s\<lparr>threads := store_77_79 t s,
            stdout := stdout s @ [msg_inserted (totalTicks s) (ID (the (threads s t))) ''L2''],
            L2Queue := sort_key (\<lambda>p. - checkPriority s p) (L2Queue s @ [t]),
            enablePreemptOnce := (enablePreemptOnce s \<or> currentThread s \<noteq> t)\<rparr>)"
proof -
  let ?s2 = "s\<lparr>threads := store_77_79 t s\<rparr>"
  from assms(1) have a: "level s = IntOff" "threads s t \<noteq> None" "threads s (currentThread s) \<noteq> None"
    and l: "ready_live s"
    by (simp_all add: admissible_def)
  have p: "\<not> checkPriority ?s2 t < 50" "checkPriority ?s2 t < 100"
    using assms(2,3) by (simp_all add: checkPriority_77_79 a)
  have "all_live s (L2Queue s @ [t])"
    using ready_liveD [OF l] a(2) by (simp add: all_live_def)
  then have "all_live ?s2 (L2Queue ?s2 @ [t])"
    by (simp add: all_live_77_79 a)
  from enqueue_L2 [OF p this] show ?thesis
    by (simp add: ReadyToRun_steps a store_77_79_ID list_sort_cmpL2 checkPriority_77_79)
qed

lemma ReadyToRun_L1:
  assumes "admissible t s" "\<not> checkPriority s t < 100"
  shows "ReadyToRun t s =
     Inr (s\<lparr>threads := store_77_79 t s,
            stdout := stdout s @ [msg_inserted (totalTicks s) (ID (the (threads s t))) ''L1''],
            L1Queue := sort_key (\<lambda>p. T (the (store_77_79 t s p))) (L1Queue s @ [t]),
            enablePreemptOnce := (enablePreemptOnce s \<or> currentThread s \<noteq> t)\<rparr>)"
proof -
  let ?s2 = "s\<lparr>threads := store_77_79 t s\<rparr>"
  from assms(1) have a: "level s = IntOff" "threads s t \<noteq> None" "threads s (currentThread s) \<noteq> None"
    and l: "ready_live s"
    by (simp_all add: admissible_def)
  have p: "\<not> checkPriority ?s2 t < 100"
    using assms(2) by (simp_all add: checkPriority_77_79 a)
  have "all_live s (L1Queue s @ [t])"
    using ready_liveD [OF l] a(2) by (simp add: all_live_def)
  then have "all_live ?s2 (L1Queue ?s2 @ [t])"
    by (simp add: all_live_77_79 a)
  from enqueue_L1 [OF p this] show ?thesis
    by (simp add: ReadyToRun_steps a store_77_79_ID list_sort_cmpL1 checkT_def [abs_def])
qed

subsection \<open>The branches of FindNextToRun\<close>

lemma FindNextToRun_none:
  "level s = IntOff \<Longrightarrow> L1Queue s = [] \<Longrightarrow> L2Queue s = [] \<Longrightarrow> L3Queue s = [] \<Longrightarrow>
   FindNextToRun s = Inr (None, s)"
  by (simp add: FindNextToRun_def)

lemma FindNextToRun_L3:
  "level s = IntOff \<Longrightarrow> L1Queue s = [] \<Longrightarrow> L2Queue s = [] \<Longrightarrow> L3Queue s = x # xs \<Longrightarrow>
   threads s x = Some th \<Longrightarrow>
   FindNextToRun s =
     Inr (Some x, s\<lparr>alarmStat := True, L3Queue := xs,
                     stdout := stdout s @ [msg_removed (totalTicks s) (ID th) ''L3'']\<rparr>)"
  by (simp add: FindNextToRun_def deref_def printf_def)

lemma FindNextToRun_L2:
  "level s = IntOff \<Longrightarrow> L1Queue s = [] \<Longrightarrow> L2Queue s = x # xs \<Longrightarrow>
   threads s x = Some th \<Longrightarrow>
   FindNextToRun s =
     Inr (Some x, s\<lparr>alarmStat := False, L2Queue := xs,
                     stdout := stdout s @ [msg_removed (totalTicks s) (ID th) ''L2'']\<rparr>)"
  by (simp add: FindNextToRun_def deref_def printf_def)

lemma FindNextToRun_L1:
  "level s = IntOff \<Longrightarrow> L1Queue s = x # xs \<Longrightarrow>
   threads s x = Some th \<Longrightarrow>
   FindNextToRun s =
     Inr (Some x, s\<lparr>alarmStat := False, L1Queue := xs,
                     stdout := stdout s @ [msg_removed (totalTicks s) (ID th) ''L1'']\<rparr>)"
  by (simp add: FindNextToRun_def deref_def printf_def)

lemma ready_live_heads:
  assumes "ready_live s"
  shows "L1Queue s = x # xs \<Longrightarrow> \<exists>th. threads s x = Some th"
    and "L2Queue s = x # xs \<Longrightarrow> \<exists>th. threads s x = Some th"
    and "L3Queue s = x # xs \<Longrightarrow> \<exists>th. threads s x = Some th"
  using assms by (auto simp add: ready_live_def all_live_def)

lemma FindNextToRun_cases [consumes 2, case_names none L3 L2 L1]:
  assumes "level s = IntOff" and "ready_live s"
  obtains
    "L1Queue s = []" "L2Queue s = []" "L3Queue s = []" "FindNextToRun s = Inr (None, s)"
  | x xs and th :: Thread where "L1Queue s = []" "L2Queue s = []" "L3Queue s = x # xs"
      "FindNextToRun s =
         Inr (Some x, s\<lparr>alarmStat := True, L3Queue := xs,
                         stdout := stdout s @ [msg_removed (totalTicks s) (ID th) ''L3'']\<rparr>)"
  | x xs and th :: Thread where "L1Queue s = []" "L2Queue s = x # xs"
      "FindNextToRun s =
         Inr (Some x, s\<lparr>alarmStat := False, L2Queue := xs,
                         stdout := stdout s @ [msg_removed (totalTicks s) (ID th) ''L2'']\<rparr>)"
  | x xs and th :: Thread where "L1Queue s = x # xs"
      "FindNextToRun s =
         Inr (Some x, s\<lparr>alarmStat := False, L1Queue := xs,
                         stdout := stdout s @ [msg_removed (totalTicks s) (ID th) ''L1'']\<rparr>)"
proof (cases "L1Queue s")
  case (Cons x xs)
  with ready_live_heads(1) [OF assms(2)] obtain th where "threads s x = Some th" by blast
  from that(4) [OF Cons FindNextToRun_L1 [OF assms(1) Cons this]] show ?thesis .
next
  case n1: Nil
  show ?thesis
  proof (cases "L2Queue s")
    case (Cons x xs)
    with ready_live_heads(2) [OF assms(2)] obtain th where "threads s x = Some th" by blast
    from that(3) [OF n1 Cons FindNextToRun_L2 [OF assms(1) n1 Cons this]] show ?thesis .
  next
    case n2: Nil
    show ?thesis
    proof (cases "L3Queue s")
      case (Cons x xs)
      with ready_live_heads(3) [OF assms(2)] obtain th where "threads s x = Some th" by blast
      from that(2) [OF n1 n2 Cons FindNextToRun_L3 [OF assms(1) n1 n2 Cons this]] show ?thesis .
    next
      case Nil
      from that(1) [OF n1 n2 Nil FindNextToRun_none [OF assms(1) n1 n2 Nil]] show ?thesis .
    qed
  qed
qed

subsection \<open>Assertions and results of ReadyToRun\<close>

lemma enqueue_no_assertion: "enqueue t s \<noteq> Inl (AssertionFailed a)"
  by (auto simp add: enqueue_def sort_queue_def Let_def and_then_def split: sum.splits if_splits)

lemma update_predictor_no_assertion: "update_predictor t s \<noteq> Inl (AssertionFailed a)"
  by (auto simp add: update_predictor_def deref_def setT_def update_thread_def and_then_def
      split: sum.splits if_splits option.splits)

lemma ReadyToRun_only_assertion:
  assumes "ReadyToRun t s = Inl (AssertionFailed a)"
  shows "a = Interrupts_off \<and> level s \<noteq> IntOff"
proof (cases "level s = IntOff")
  case False
  with assms show ?thesis by (simp add: ReadyToRun_def)
next
  case True
  have "setStatus t READY s \<noteq> Inl (AssertionFailed a)"
    by (simp add: setStatus_def update_thread_def split: option.splits)
  with assms True enqueue_no_assertion update_predictor_no_assertion show ?thesis
    by (auto simp add: ReadyToRun_def and_then_def split: sum.splits)
qed

lemma ReadyToRun_threads:
  assumes "admissible t s"
  shows "\<exists>s'. ReadyToRun t s = Inr s' \<and> threads s' = store_77_79 t s \<and>
    t \<in> set (L1Queue s' @ L2Queue s' @ L3Queue s')"
proof -
  consider (L3) "checkPriority s t < 50"
    | (L2) "\<not> checkPriority s t < 50" "checkPriority s t < 100"
    | (L1) "\<not> checkPriority s t < 100"
    by linarith
  then show ?thesis
  proof cases
    case L3
    then show ?thesis by (simp add: ReadyToRun_L3 [OF assms])
  next
    case L2
    then show ?thesis by (simp add: ReadyToRun_L2 [OF assms])
  next
    case L1
    then show ?thesis by (simp add: ReadyToRun_L1 [OF assms])
  qed
qed

subsection \<open>Halving an \<open>int\<close> with truncation\<close>

lemma sdiv_2: "2 * (k sdiv 2) = (if even k then k else k - sgn k)" for k :: int
proof -
  consider "k < 0" | "k = 0" | "0 < k" by linarith
  then show ?thesis
  proof cases
    case 1
    then have "k sdiv 2 = - ((- k) div 2)"
      by (simp add: signed_divide_int_def)
    with 1 show ?thesis by (simp add: sgn_if) presburger
  next
    case 2
    then show ?thesis by simp
  next
    case 3
    then have "k sdiv 2 = k div 2"
      by (simp add: signed_divide_int_def)
    with 3 show ?thesis by (simp add: sgn_if) presburger
  qed
qed

subsection \<open>Order of the queues across ReadyToRun\<close>

lemma checkPriority_after:
  assumes "threads s t \<noteq> None" "threads s (currentThread s) \<noteq> None"
    and "threads s' = store_77_79 t s"
  shows "checkPriority s' p = checkPriority s p"
  using assms by (simp add: checkPriority_def store_77_79_priority)

lemma checkT_after:
  assumes "threads s' = store_77_79 t s" and "t = currentThread s \<or> p \<noteq> currentThread s"
  shows "checkT s' p = checkT s p"
  using assms by (auto simp add: checkT_def store_77_79_T)

lemma L2_ordered_sort:
  assumes "L2Queue s' = sort_key (\<lambda>p. - checkPriority s' p) q"
  shows "L2_ordered s'"
proof -
  have "sorted (map (\<lambda>p. - checkPriority s' p) (L2Queue s'))"
    by (simp only: assms sorted_sort_key)
  then show ?thesis
    by (simp add: L2_ordered_def sorted_map)
qed

lemma L1_ordered_sort:
  assumes "L1Queue s' = sort_key (checkT s') q"
  shows "L1_ordered s'"
proof -
  have "sorted (map (checkT s') (L1Queue s'))"
    by (simp only: assms sorted_sort_key)
  then show ?thesis
    by (simp add: L1_ordered_def sorted_map)
qed

lemma L2_stable:
  "filter (\<lambda>p. checkPriority s' p = k) (sort_key (\<lambda>p. - checkPriority s' p) q) =
   filter (\<lambda>p. checkPriority s' p = k) q"
  using sort_key_stable [of "\<lambda>p. - checkPriority s' p" "- k" q] by simp

lemma L2_ordered_kept:
  assumes "threads s t \<noteq> None" "threads s (currentThread s) \<noteq> None"
    and "threads s' = store_77_79 t s" and "L2Queue s' = L2Queue s" and "L2_ordered s"
  shows "L2_ordered s'"
  using assms(4,5) by (simp add: L2_ordered_def checkPriority_after [OF assms(1-3)])

lemma L1_ordered_kept:
  assumes "threads s' = store_77_79 t s" and "L1Queue s' = L1Queue s" and "L1_ordered s"
    and "t = currentThread s \<or> currentThread s \<notin> set (L1Queue s)"
  shows "L1_ordered s'"
proof -
  have "checkT s' p = checkT s p" if "p \<in> set (L1Queue s)" for p
    using that assms(4) by (intro checkT_after [OF assms(1)]) auto
  with assms(3) show ?thesis
    unfolding L1_ordered_def assms(2)
    by (elim sorted_wrt_mono_rel [rotated]) simp
qed

subsection \<open>Reclamation and dispatch\<close>

lemma CheckToBeDestroyed_slot:
  "CheckToBeDestroyed s = Inr s' \<Longrightarrow> toBeDestroyed s' = None"
  by (auto simp add: CheckToBeDestroyed_def split: option.splits)

lemma Run_from_SWITCH_slot:
  "Run_from_SWITCH oldThread s = Inr s' \<Longrightarrow> toBeDestroyed s' = None"
  by (auto simp add: Run_from_SWITCH_def and_then_def deref_def
      dest: CheckToBeDestroyed_slot split: sum.splits if_splits option.splits)

lemma Run_to_SWITCH_finishing_ok:
  assumes "level s = IntOff" and "toBeDestroyed s = None"
    and "threads s (currentThread s) = Some old" and "stackOK old"
    and "threads s nextThread \<noteq> None"
  shows "\<exists>s'. Run_to_SWITCH nextThread True s = Inr s' \<and>
               toBeDestroyed s' = Some (currentThread s)"
  using assms
  by (auto simp add: Run_to_SWITCH_def Let_def deref_def CheckOverflow_def setStatus_def
      update_thread_def printf_def setLastExecTick_def setTempTick_def
      split: option.splits)

lemma Run_to_SWITCH_finishing_slot:
  assumes "Run_to_SWITCH nextThread True s = Inr s'"
  shows "toBeDestroyed s = None \<and> toBeDestroyed s' = Some (currentThread s)"
  using assms
  by (auto simp add: Run_to_SWITCH_def Let_def deref_def CheckOverflow_def setStatus_def
      update_thread_def printf_def setLastExecTick_def setTempTick_def and_then_def
      split: option.splits if_splits sum.splits)

lemma Run_to_SWITCH_assert:
  assumes "level s = IntOff"
  shows "Run_to_SWITCH nextThread True s = Inl (AssertionFailed ToBeDestroyed_is_NULL)
         \<longleftrightarrow> toBeDestroyed s \<noteq> None"
  using assms
  by (auto simp add: Run_to_SWITCH_def Let_def deref_def CheckOverflow_def setStatus_def
      update_thread_def printf_def setLastExecTick_def setTempTick_def and_then_def
      split: option.splits if_splits sum.splits)

subsection \<open>Evaluating the model on the example states\<close>

lemmas ex_defs = ex_boot_def ex_ready_def ex_A_alone_def ex_A_running_def ex_store_def

lemmas run_defs = ReadyToRun_def and_then_def setStatus_def update_thread_def
  update_predictor_def enqueue_def deref_def setT_def sort_queue_def cmpL1_def cmpL2_def
  printf_def Let_def

lemmas eval_defs = admissible_def ready_live_def all_live_def checkPriority_def checkT_def
  msg_inserted_def msg_removed_def fmt_d_def fmt_nat.simps digit_char_def

section \<open>The claims\<close>

subsection \<open>C1: selection of the next thread\<close>

text \<open>
  C1. With interrupts off and the queued pointers live, \<open>FindNextToRun\<close> returns the head
  of the first non-empty queue in the order L1, L2, L3 and removes it from that queue; it
  returns \<open>NULL\<close> exactly when all three queues are empty.
\<close>

theorem FindNextToRun_highest_band:
  assumes "level s = IntOff" and "ready_live s"
  shows "\<exists>r s'. FindNextToRun s = Inr (r, s') \<and>
     (case L1Queue s of
        x # xs \<Rightarrow> r = Some x \<and> L1Queue s' = xs
      | [] \<Rightarrow>
          (case L2Queue s of
             x # xs \<Rightarrow> r = Some x \<and> L2Queue s' = xs
           | [] \<Rightarrow>
               (case L3Queue s of
                  x # xs \<Rightarrow> r = Some x \<and> L3Queue s' = xs
                | [] \<Rightarrow> r = None))) \<and>
     (r = None \<longleftrightarrow> L1Queue s = [] \<and> L2Queue s = [] \<and> L3Queue s = [])"
  using assms by (cases rule: FindNextToRun_cases) auto

theorem FindNextToRun_highest_band_witness:
  "level ex_ready = IntOff \<and> ready_live ex_ready \<and>
   fst (projr (FindNextToRun ex_ready)) = Some 2 \<and>
   L1Queue (snd (projr (FindNextToRun ex_ready))) = [3, 1]"
proof -
  have h: "level ex_ready = IntOff" "ready_live ex_ready"
    by (simp_all add: eval_defs ex_defs)
  from FindNextToRun_highest_band [OF h] obtain r s' where
    "FindNextToRun ex_ready = Inr (r, s')" "r = Some 2" "L1Queue s' = [3, 1]"
    by (auto simp add: ex_ready_def ex_boot_def)
  with h show ?thesis by simp
qed

subsection \<open>C2: placement by priority band\<close>

text \<open>
  C2. For every thread passed to \<open>ReadyToRun\<close> (with interrupts off and live objects), the
  call succeeds and appends the thread to the queue of its priority band: L3 if its priority
  is below 50, L2 if it is at least 50 and below 100, L1 from 100 on. L3 is the old queue
  followed by the thread; L2 and L1 are the old queue followed by the thread and then sorted,
  so they hold what they held plus the thread. The two other queues are as before, and the
  line "Tick t: Thread id is inserted into queue Lk" of that band is printed.
\<close>

theorem ReadyToRun_places_by_band:
  assumes "admissible t s"
  shows "\<exists>s'. ReadyToRun t s = Inr s' \<and>
     (if checkPriority s t < 50 then
        L3Queue s' = L3Queue s @ [t] \<and> L2Queue s' = L2Queue s \<and> L1Queue s' = L1Queue s \<and>
        stdout s' = stdout s @ [msg_inserted (totalTicks s) (ID (the (threads s t))) ''L3'']
      else if checkPriority s t < 100 then
        L2Queue s' = list_sort (cmpL2 s') (L2Queue s @ [t]) \<and>
        mset (L2Queue s') = mset (L2Queue s) + {#t#} \<and>
        L3Queue s' = L3Queue s \<and> L1Queue s' = L1Queue s \<and>
        stdout s' = stdout s @ [msg_inserted (totalTicks s) (ID (the (threads s t))) ''L2'']
      else
        L1Queue s' = list_sort (cmpL1 s') (L1Queue s @ [t]) \<and>
        mset (L1Queue s') = mset (L1Queue s) + {#t#} \<and>
        L3Queue s' = L3Queue s \<and> L2Queue s' = L2Queue s \<and>
        stdout s' = stdout s @ [msg_inserted (totalTicks s) (ID (the (threads s t))) ''L1''])"
proof -
  from assms have a: "threads s t \<noteq> None" "threads s (currentThread s) \<noteq> None"
    by (simp_all add: admissible_def)
  consider (L3) "checkPriority s t < 50"
    | (L2) "\<not> checkPriority s t < 50" "checkPriority s t < 100"
    | (L1) "\<not> checkPriority s t < 50" "\<not> checkPriority s t < 100"
    by blast
  then show ?thesis
  proof cases
    case L3
    then show ?thesis
      by (simp add: ReadyToRun_L3 [OF assms])
  next
    case L2
    then show ?thesis
      by (simp add: ReadyToRun_L2 [OF assms] list_sort_cmpL2 checkPriority_def [abs_def]
          store_77_79_priority a)
  next
    case L1
    then show ?thesis
      by (simp add: ReadyToRun_L1 [OF assms] list_sort_cmpL1 checkT_def [abs_def])
  qed
qed

theorem ReadyToRun_places_by_band_witness:
  "admissible 8 ex_ready \<and>
   L1Queue (projr (ReadyToRun 8 ex_ready)) = [2, 3, 8, 1] \<and>
   L2Queue (projr (ReadyToRun 8 ex_ready)) = [4] \<and>
   L3Queue (projr (ReadyToRun 8 ex_ready)) = [5] \<and>
   stdout (projr (ReadyToRun 8 ex_ready)) =
     [''Tick 200: Thread 8 is inserted into queue L1'' @ [CHR 0x0A]]"
proof -
  have adm: "admissible 8 ex_ready"
    by (simp add: eval_defs ex_defs)
  from ReadyToRun_places_by_band [OF adm] obtain s' where
    r: "ReadyToRun 8 ex_ready = Inr s'" and
    q: "L1Queue s' = list_sort (cmpL1 s') (L1Queue ex_ready @ [8])"
       "L3Queue s' = L3Queue ex_ready" "L2Queue s' = L2Queue ex_ready"
       "stdout s' = stdout ex_ready @
          [msg_inserted (totalTicks ex_ready) (ID (the (threads ex_ready 8))) ''L1'']"
    by (auto simp add: eval_defs ex_defs)
  have "map (checkT (projr (ReadyToRun 8 ex_ready))) [2, 3, 1, 8] = [10, 30, 50, 30]"
    by (simp add: run_defs eval_defs ex_defs)
  then have k: "checkT s' 2 = 10" "checkT s' 3 = 30" "checkT s' 1 = 50" "checkT s' 8 = 30"
    by (simp_all add: r)
  have l1: "L1Queue s' = [2, 3, 8, 1]"
    using k by (simp add: q(1) cmpL1_def ex_defs)
  have p: "projr (ReadyToRun 8 ex_ready) = s'"
    by (simp add: r)
  show ?thesis
    unfolding p using adm l1 q(2-4) by (simp add: eval_defs ex_defs)
qed

subsection \<open>C3: when the predictor is recomputed\<close>

text \<open>
  C3, as the spec has it, fails. When the running thread A (\<open>T = 50\<close>, 20 ticks run)
  re-admits itself, as a yield does, its predictor stays 50 and is not the average 35;
  it becomes 35 when some other thread is admitted while A runs.
\<close>

theorem ReadyToRun_predictor_counterexample:
  "currentThread ex_A_running = 1 \<and>
   0.5 * real_of_int (tempTick (the (threads ex_A_running 1))) + 0.5 * checkT ex_A_running 1 = 35 \<and>
   \<not> isl (ReadyToRun 1 ex_A_running) \<and>
   L1Queue (projr (ReadyToRun 1 ex_A_running)) = [2, 3, 1] \<and>
   checkT (projr (ReadyToRun 1 ex_A_running)) 1 = 50 \<and>
   \<not> isl (ReadyToRun 5 ex_A_running) \<and>
   L3Queue (projr (ReadyToRun 5 ex_A_running)) = [5] \<and>
   checkT (projr (ReadyToRun 5 ex_A_running)) 1 = 35"
  by (simp add: run_defs eval_defs ex_defs)

text \<open>
  C3, amended. During \<open>ReadyToRun(thread)\<close>, exactly when \<open>thread\<close> is not the running
  thread, the predictor of the running thread is recomputed, and it is
  \<open>0.5 * tempTick + 0.5 * T\<close> whenever \<open>tempTick\<close> is even; no other predictor changes,
  and none at all when the running thread re-admits itself. The update precedes the
  placement: a thread that goes to L1 is sorted into it by the values of \<open>T\<close> after the
  update.
\<close>

theorem ReadyToRun_predictor:
  assumes "admissible t s"
  shows "\<exists>s'. ReadyToRun t s = Inr s' \<and>
     (\<forall>p. t = currentThread s \<or> p \<noteq> currentThread s \<longrightarrow> checkT s' p = checkT s p) \<and>
     (t \<noteq> currentThread s \<and> even (tempTick (the (threads s (currentThread s)))) \<longrightarrow>
        checkT s' (currentThread s) =
          0.5 * real_of_int (tempTick (the (threads s (currentThread s))))
            + 0.5 * checkT s (currentThread s)) \<and>
     (\<not> checkPriority s t < 100 \<longrightarrow>
        L1Queue s' = list_sort (cmpL1 s') (L1Queue s @ [t]) \<and> L1_ordered s')"
proof -
  from ReadyToRun_threads [OF assms] obtain s' where
    r: "ReadyToRun t s = Inr s'" and h: "threads s' = store_77_79 t s"
    by blast
  have U: "checkT s' p = checkT s p" if "t = currentThread s \<or> p \<noteq> currentThread s" for p
    using that by (rule checkT_after [OF h])
  have E: "checkT s' (currentThread s) =
          0.5 * real_of_int (tempTick (the (threads s (currentThread s))))
            + 0.5 * checkT s (currentThread s)"
    if "t \<noteq> currentThread s" "even (tempTick (the (threads s (currentThread s))))"
  proof -
    from that(2) have "2 * (tempTick (the (threads s (currentThread s))) sdiv 2) =
        tempTick (the (threads s (currentThread s)))"
      by (simp add: sdiv_2)
    then have "2 * real_of_int (tempTick (the (threads s (currentThread s))) sdiv 2) =
        real_of_int (tempTick (the (threads s (currentThread s))))"
      by (metis of_int_mult of_int_numeral)
    with that(1) show ?thesis
      by (simp add: checkT_def h store_77_79_T)
  qed
  have Q: "L1Queue s' = list_sort (cmpL1 s') (L1Queue s @ [t]) \<and> L1_ordered s'"
    if "\<not> checkPriority s t < 100"
  proof -
    from ReadyToRun_L1 [OF assms that] r
    have q: "L1Queue s' = sort_key (checkT s') (L1Queue s @ [t])"
      by (auto simp add: checkT_def [abs_def])
    then have "L1_ordered s'"
      by (rule L1_ordered_sort)
    with q show ?thesis
      by (simp add: list_sort_cmpL1)
  qed
  from r U E Q show ?thesis by blast
qed

theorem ReadyToRun_predictor_witness:
  "admissible 8 ex_A_running \<and> currentThread ex_A_running = 1 \<and>
   checkT ex_A_running 1 = 50 \<and> tempTick (the (threads ex_A_running 1)) = 20 \<and>
   \<not> isl (ReadyToRun 8 ex_A_running) \<and>
   checkT (projr (ReadyToRun 8 ex_A_running)) 1 = 35 \<and>
   checkT (projr (ReadyToRun 8 ex_A_running)) 8 = 30 \<and>
   L1Queue (projr (ReadyToRun 8 ex_A_running)) = [2, 3, 8]"
proof -
  have a: "admissible 8 ex_A_running"
    by (simp add: eval_defs ex_defs)
  have v: "currentThread ex_A_running = 1" "checkT ex_A_running 1 = 50"
    "tempTick (the (threads ex_A_running 1)) = 20" "checkT ex_A_running 8 = 30"
    "checkT ex_A_running 2 = 10" "checkT ex_A_running 3 = 30"
    "\<not> checkPriority ex_A_running 8 < 100" "L1Queue ex_A_running = [2, 3]"
    by (simp_all add: eval_defs ex_defs)
  from ReadyToRun_predictor [OF a] obtain s' where
    r: "ReadyToRun 8 ex_A_running = Inr s'" and
    U: "\<And>p. p \<noteq> currentThread ex_A_running \<Longrightarrow> checkT s' p = checkT ex_A_running p" and
    E: "8 \<noteq> currentThread ex_A_running \<and>
        even (tempTick (the (threads ex_A_running (currentThread ex_A_running)))) \<longrightarrow>
        checkT s' (currentThread ex_A_running) =
          0.5 * real_of_int (tempTick (the (threads ex_A_running (currentThread ex_A_running))))
            + 0.5 * checkT ex_A_running (currentThread ex_A_running)" and
    q: "L1Queue s' = list_sort (cmpL1 s') (L1Queue ex_A_running @ [8])"
    using v(7) by blast
  from E v have "checkT s' 1 = 35"
    by simp
  moreover have "checkT s' 8 = 30" "checkT s' 2 = 10" "checkT s' 3 = 30"
    using v by (simp_all add: U)
  ultimately have k: "checkT s' 1 = 35" "checkT s' 8 = 30" "checkT s' 2 = 10" "checkT s' 3 = 30"
    by simp_all
  have "L1Queue s' = [2, 3, 8]"
    using k by (simp add: q v cmpL1_def)
  with a v r k show ?thesis by simp
qed

subsection \<open>C4: the order of the queues\<close>

text \<open>
  C4, as the spec has it, fails. Thread A runs, with \<open>T = 50\<close> and 20 ticks run, and all
  queues are empty. Admitting C (\<open>T = 30\<close>) makes the predictor of A 35; A then re-admits
  itself and stands behind C in L1; admitting thread 5 into L3 makes the predictor of A
  27.5 and does not sort L1, which is left as C, A with the keys 30, 27.5. Each of the
  three calls is made with interrupts off on live objects, and L1 was in order before the
  last one.
\<close>

theorem ReadyToRun_order_counterexample:
  "admissible 3 ex_A_alone \<and>
   admissible 1 (projr (ReadyToRun 3 ex_A_alone)) \<and>
   admissible 5 (projr (and_then (ReadyToRun 3 ex_A_alone) (ReadyToRun 1))) \<and>
   L1_ordered (projr (and_then (ReadyToRun 3 ex_A_alone) (ReadyToRun 1))) \<and>
   \<not> isl (and_then (and_then (ReadyToRun 3 ex_A_alone) (ReadyToRun 1)) (ReadyToRun 5)) \<and>
   L1Queue (projr (and_then (and_then (ReadyToRun 3 ex_A_alone) (ReadyToRun 1)) (ReadyToRun 5)))
     = [3, 1] \<and>
   checkT (projr (and_then (and_then (ReadyToRun 3 ex_A_alone) (ReadyToRun 1)) (ReadyToRun 5))) 3
     = 30 \<and>
   checkT (projr (and_then (and_then (ReadyToRun 3 ex_A_alone) (ReadyToRun 1)) (ReadyToRun 5))) 1
     = 55 / 2 \<and>
   \<not> L1_ordered
       (projr (and_then (and_then (ReadyToRun 3 ex_A_alone) (ReadyToRun 1)) (ReadyToRun 5)))"
  by (simp add: run_defs eval_defs L1_ordered_def ex_defs)

text \<open>
  C4, amended. After a call of \<open>ReadyToRun\<close> the queue that received the thread follows its
  discipline: L1 is in ascending order of \<open>T\<close> and L2 in descending order of \<open>priority\<close>,
  in both the threads of equal key stand as they stood before with the admitted thread
  behind them, and L3 is the old queue followed by the thread. The queues that did not
  receive the thread keep their order: L3 is unchanged, L2 stays ordered, and L1 stays
  ordered provided that the running thread is not waiting in it or is the thread admitted.
\<close>

theorem ReadyToRun_keeps_order:
  assumes "admissible t s"
  shows "\<exists>s'. ReadyToRun t s = Inr s' \<and>
    (if checkPriority s t < 50 then L3Queue s' = L3Queue s @ [t]
     else if checkPriority s t < 100 then
       L2_ordered s' \<and>
       (\<forall>k. filter (\<lambda>p. checkPriority s' p = k) (L2Queue s') =
            filter (\<lambda>p. checkPriority s' p = k) (L2Queue s @ [t]))
     else
       L1_ordered s' \<and>
       (\<forall>k. filter (\<lambda>p. checkT s' p = k) (L1Queue s') =
            filter (\<lambda>p. checkT s' p = k) (L1Queue s @ [t]))) \<and>
    (\<not> checkPriority s t < 50 \<longrightarrow> L3Queue s' = L3Queue s) \<and>
    (L2_ordered s \<longrightarrow> L2_ordered s') \<and>
    (L1_ordered s \<and> (t = currentThread s \<or> currentThread s \<notin> set (L1Queue s))
       \<longrightarrow> L1_ordered s')"
proof -
  from assms have a: "threads s t \<noteq> None" "threads s (currentThread s) \<noteq> None"
    by (simp_all add: admissible_def)
  consider (L3) "checkPriority s t < 50"
    | (L2) "\<not> checkPriority s t < 50" "checkPriority s t < 100"
    | (L1) "\<not> checkPriority s t < 50" "\<not> checkPriority s t < 100"
    by blast
  then show ?thesis
  proof cases
    case L3
    let ?s' = "s\<lparr>threads := store_77_79 t s,
            stdout := stdout s @ [msg_inserted (totalTicks s) (ID (the (threads s t))) ''L3''],
            L3Queue := L3Queue s @ [t]\<rparr>"
    have "L2_ordered s \<longrightarrow> L2_ordered ?s'"
      by (auto intro: L2_ordered_kept [OF a])
    moreover have "L1_ordered s \<and> (t = currentThread s \<or> currentThread s \<notin> set (L1Queue s))
       \<longrightarrow> L1_ordered ?s'"
      by (auto intro: L1_ordered_kept)
    ultimately show ?thesis
      using L3 by (simp add: ReadyToRun_L3 [OF assms])
  next
    case L2
    let ?s' = "s\<lparr>threads := store_77_79 t s,
            stdout := stdout s @ [msg_inserted (totalTicks s) (ID (the (threads s t))) ''L2''],
            L2Queue := sort_key (\<lambda>p. - checkPriority s p) (L2Queue s @ [t]),
            enablePreemptOnce := (enablePreemptOnce s \<or> currentThread s \<noteq> t)\<rparr>"
    have c: "checkPriority ?s' = checkPriority s"
      by (rule ext) (simp add: checkPriority_after [OF a])
    have "L2_ordered ?s'"
      by (rule L2_ordered_sort [where q = "L2Queue s @ [t]"]) (simp add: c)
    moreover have "filter (\<lambda>p. checkPriority ?s' p = k) (L2Queue ?s') =
            filter (\<lambda>p. checkPriority ?s' p = k) (L2Queue s @ [t])" for k
      using L2_stable [of ?s' k "L2Queue s @ [t]"] by (simp add: c)
    moreover have "L1_ordered s \<and> (t = currentThread s \<or> currentThread s \<notin> set (L1Queue s))
       \<longrightarrow> L1_ordered ?s'"
      by (auto intro: L1_ordered_kept)
    ultimately show ?thesis
      using L2 by (simp add: ReadyToRun_L2 [OF assms])
  next
    case L1
    let ?s' = "s\<lparr>threads := store_77_79 t s,
            stdout := stdout s @ [msg_inserted (totalTicks s) (ID (the (threads s t))) ''L1''],
            L1Queue := sort_key (\<lambda>p. T (the (store_77_79 t s p))) (L1Queue s @ [t]),
            enablePreemptOnce := (enablePreemptOnce s \<or> currentThread s \<noteq> t)\<rparr>"
    have c: "checkT ?s' = (\<lambda>p. T (the (store_77_79 t s p)))"
      by (rule ext) (simp add: checkT_def)
    have "L1_ordered ?s'"
      by (rule L1_ordered_sort [where q = "L1Queue s @ [t]"]) (simp add: c)
    moreover have "filter (\<lambda>p. checkT ?s' p = k) (L1Queue ?s') =
            filter (\<lambda>p. checkT ?s' p = k) (L1Queue s @ [t])" for k
      using sort_key_stable [of "checkT ?s'" k "L1Queue s @ [t]"] by (simp add: c)
    moreover have "L2_ordered s \<longrightarrow> L2_ordered ?s'"
      by (auto intro: L2_ordered_kept [OF a])
    ultimately show ?thesis
      using L1 by (simp add: ReadyToRun_L1 [OF assms])
  qed
qed

theorem ReadyToRun_keeps_order_witness:
  "admissible 8 ex_ready \<and> L1_ordered ex_ready \<and> L2_ordered ex_ready \<and>
   currentThread ex_ready \<notin> set (L1Queue ex_ready) \<and>
   \<not> isl (ReadyToRun 8 ex_ready) \<and>
   L1_ordered (projr (ReadyToRun 8 ex_ready)) \<and>
   L2_ordered (projr (ReadyToRun 8 ex_ready)) \<and>
   filter (\<lambda>p. checkT (projr (ReadyToRun 8 ex_ready)) p = 30)
     (L1Queue (projr (ReadyToRun 8 ex_ready))) = [3, 8] \<and>
   L3Queue (projr (ReadyToRun 8 ex_ready)) = [5]"
proof -
  have a: "admissible 8 ex_ready"
    by (simp add: eval_defs ex_defs)
  have o: "L1_ordered ex_ready" "L2_ordered ex_ready"
    "currentThread ex_ready \<notin> set (L1Queue ex_ready)"
    by (simp_all add: L1_ordered_def L2_ordered_def eval_defs ex_defs)
  have b: "\<not> checkPriority ex_ready 8 < 50" "\<not> checkPriority ex_ready 8 < 100"
    by (simp_all add: eval_defs ex_defs)
  from ReadyToRun_keeps_order [OF a] obtain s' where
    r: "ReadyToRun 8 ex_ready = Inr s'" and
    l1: "L1_ordered s'" and
    st: "\<And>k. filter (\<lambda>p. checkT s' p = k) (L1Queue s') =
            filter (\<lambda>p. checkT s' p = k) (L1Queue ex_ready @ [8])" and
    l3: "L3Queue s' = L3Queue ex_ready" and
    l2: "L2_ordered s'"
    using b o by auto
  have "map (checkT (projr (ReadyToRun 8 ex_ready))) [2, 3, 1, 8] = [10, 30, 50, 30]"
    by (simp add: run_defs eval_defs ex_defs)
  then have k: "checkT s' 2 = 10" "checkT s' 3 = 30" "checkT s' 1 = 50" "checkT s' 8 = 30"
    by (simp_all add: r)
  have "filter (\<lambda>p. checkT s' p = 30) (L1Queue s') = [3, 8]"
    using k by (simp add: st ex_defs)
  with a o r l1 l2 l3 show ?thesis
    by (simp add: ex_ready_def ex_boot_def)
qed

subsection \<open>C5: a burst that equals its prediction\<close>

text \<open>
  C5. The predictor update is meant to be stable: a thread whose \<open>tempTick\<close> equals its
  \<open>T\<close> when the predictor is recomputed should keep that \<open>T\<close>. Line 79 misses this for
  odd \<open>tempTick\<close>: thread 7 runs with \<open>tempTick = 3\<close> and \<open>T = 3\<close>, thread 2 is admitted,
  and the new predictor of thread 7 is \<open>3 / 2 + 3.0 / 2 = 1 + 1.5\<close>, which is 2.5 and
  not 3.
\<close>

theorem predictor_unstable_at_3:
  "admissible 2 (ex_boot\<lparr>currentThread := 7\<rparr>) \<and>
   real_of_int (tempTick (the (threads (ex_boot\<lparr>currentThread := 7\<rparr>) 7))) =
     checkT (ex_boot\<lparr>currentThread := 7\<rparr>) 7 \<and>
   checkT (ex_boot\<lparr>currentThread := 7\<rparr>) 7 = 3 \<and>
   \<not> isl (ReadyToRun 2 (ex_boot\<lparr>currentThread := 7\<rparr>)) \<and>
   checkT (projr (ReadyToRun 2 (ex_boot\<lparr>currentThread := 7\<rparr>))) 7 = 5 / 2"
  by (simp add: run_defs eval_defs ex_defs)

subsection \<open>C6: the finishing thread is handed over for destruction\<close>

text \<open>
  C6. A call \<open>Run(nextThread, finishing)\<close> with \<open>finishing\<close> set and interrupts off asserts
  that \<open>toBeDestroyed\<close> is \<open>NULL\<close>: the assertion fails exactly when the slot is occupied
  on entry. Whenever the call reaches \<open>SWITCH\<close>, the slot was empty on entry and now holds
  the old \<open>currentThread\<close>, the one thread pending destruction. With the slot empty on entry
  (and live thread objects, the old thread's stack intact) the call does reach \<open>SWITCH\<close>.
\<close>

theorem Run_finishing_marks_old_thread:
  assumes "level s = IntOff"
  shows "(Run_to_SWITCH nextThread True s = Inl (AssertionFailed ToBeDestroyed_is_NULL)
            \<longleftrightarrow> toBeDestroyed s \<noteq> None) \<and>
         (\<forall>s'. Run_to_SWITCH nextThread True s = Inr s' \<longrightarrow>
            toBeDestroyed s = None \<and> toBeDestroyed s' = Some (currentThread s)) \<and>
         (toBeDestroyed s = None \<and> (\<exists>old. threads s (currentThread s) = Some old \<and> stackOK old) \<and>
          threads s nextThread \<noteq> None \<longrightarrow>
            (\<exists>s'. Run_to_SWITCH nextThread True s = Inr s' \<and>
                  toBeDestroyed s' = Some (currentThread s)))"
  using Run_to_SWITCH_assert [OF assms] Run_to_SWITCH_finishing_slot
    Run_to_SWITCH_finishing_ok [OF assms]
  by blast

theorem Run_finishing_marks_old_thread_witness:
  "level ex_boot = IntOff \<and> toBeDestroyed ex_boot = None \<and>
   \<not> isl (Run_to_SWITCH 2 True ex_boot) \<and>
   toBeDestroyed (projr (Run_to_SWITCH 2 True ex_boot)) = Some 0 \<and>
   currentThread (projr (Run_to_SWITCH 2 True ex_boot)) = 2 \<and>
   Run_to_SWITCH 2 True (ex_boot\<lparr>toBeDestroyed := Some 6\<rparr>) =
     Inl (AssertionFailed ToBeDestroyed_is_NULL)"
proof -
  have h: "level ex_boot = IntOff" "level (ex_boot\<lparr>toBeDestroyed := Some 6\<rparr>) = IntOff"
    by (simp_all add: ex_defs)
  have pre: "toBeDestroyed ex_boot = None \<and>
      (\<exists>old. threads ex_boot (currentThread ex_boot) = Some old \<and> stackOK old) \<and>
      threads ex_boot 2 \<noteq> None"
    by (simp add: ex_defs)
  with Run_finishing_marks_old_thread [OF h(1), of 2] obtain s' where
    e: "Run_to_SWITCH 2 True ex_boot = Inr s'" and
    d: "toBeDestroyed s' = Some (currentThread ex_boot)"
    by blast
  have c: "currentThread (projr (Run_to_SWITCH 2 True ex_boot)) = 2"
    by (simp add: Run_to_SWITCH_def Let_def deref_def CheckOverflow_def setStatus_def
        update_thread_def printf_def setLastExecTick_def setTempTick_def ex_defs)
  have "Run_to_SWITCH 2 True (ex_boot\<lparr>toBeDestroyed := Some 6\<rparr>) =
     Inl (AssertionFailed ToBeDestroyed_is_NULL)"
    using Run_finishing_marks_old_thread [OF h(2), of 2] by simp
  with e d c pre h show ?thesis
    by (simp add: ex_boot_def)
qed

subsection \<open>C7: CheckToBeDestroyed is idempotent\<close>

text \<open>
  C7. From any state, calling \<open>CheckToBeDestroyed\<close> twice in a row gives what calling it once
  gives, and after a call the slot \<open>toBeDestroyed\<close> is \<open>NULL\<close>. The call succeeds whenever
  the slot is empty or addresses a live thread.
\<close>

theorem CheckToBeDestroyed_idempotent:
  "and_then (CheckToBeDestroyed s) CheckToBeDestroyed = CheckToBeDestroyed s \<and>
   (\<forall>s'. CheckToBeDestroyed s = Inr s' \<longrightarrow> toBeDestroyed s' = None) \<and>
   ((\<forall>p. toBeDestroyed s = Some p \<longrightarrow> threads s p \<noteq> None) \<longrightarrow>
      (\<exists>s'. CheckToBeDestroyed s = Inr s'))"
proof (intro conjI)
  show "and_then (CheckToBeDestroyed s) CheckToBeDestroyed = CheckToBeDestroyed s"
  proof (cases "CheckToBeDestroyed s")
    case (Inl e)
    then show ?thesis by simp
  next
    case (Inr s')
    then have "toBeDestroyed s' = None" by (rule CheckToBeDestroyed_slot)
    then have "CheckToBeDestroyed s' = Inr s'" by (simp add: CheckToBeDestroyed_def)
    with Inr show ?thesis by simp
  qed
next
  show "\<forall>s'. CheckToBeDestroyed s = Inr s' \<longrightarrow> toBeDestroyed s' = None"
    by (blast dest: CheckToBeDestroyed_slot)
next
  show "(\<forall>p. toBeDestroyed s = Some p \<longrightarrow> threads s p \<noteq> None) \<longrightarrow>
      (\<exists>s'. CheckToBeDestroyed s = Inr s')"
    by (auto simp add: CheckToBeDestroyed_def split: option.splits)
qed

theorem CheckToBeDestroyed_idempotent_witness:
  "toBeDestroyed (ex_boot\<lparr>toBeDestroyed := Some 6\<rparr>) = Some 6 \<and>
   threads (ex_boot\<lparr>toBeDestroyed := Some 6\<rparr>) 6 \<noteq> None \<and>
   \<not> isl (CheckToBeDestroyed (ex_boot\<lparr>toBeDestroyed := Some 6\<rparr>)) \<and>
   toBeDestroyed (projr (CheckToBeDestroyed (ex_boot\<lparr>toBeDestroyed := Some 6\<rparr>))) = None \<and>
   threads (projr (CheckToBeDestroyed (ex_boot\<lparr>toBeDestroyed := Some 6\<rparr>))) 6 = None \<and>
   and_then (CheckToBeDestroyed (ex_boot\<lparr>toBeDestroyed := Some 6\<rparr>)) CheckToBeDestroyed =
     CheckToBeDestroyed (ex_boot\<lparr>toBeDestroyed := Some 6\<rparr>)"
proof -
  let ?s = "ex_boot\<lparr>toBeDestroyed := Some 6\<rparr>"
  have live: "\<forall>p. toBeDestroyed ?s = Some p \<longrightarrow> threads ?s p \<noteq> None"
    by (simp add: ex_defs)
  with CheckToBeDestroyed_idempotent [of ?s] obtain s' where
    e: "CheckToBeDestroyed ?s = Inr s'" and n: "toBeDestroyed s' = None" and
    i: "and_then (CheckToBeDestroyed ?s) CheckToBeDestroyed = CheckToBeDestroyed ?s"
    by blast
  have "threads (projr (CheckToBeDestroyed ?s)) 6 = None"
    by (simp add: CheckToBeDestroyed_def ex_defs)
  with e n i show ?thesis
    by (simp add: ex_defs)
qed

subsection \<open>C8: PureFindNext against FindNextToRun\<close>

text \<open>
  C8. With interrupts off and the queued pointers live, \<open>PureFindNext\<close> returns the very
  thread (or \<open>NULL\<close>) that \<open>FindNextToRun\<close> returns from the same state, and hands the
  state back as it was, the three queues included.
\<close>

theorem PureFindNext_agrees:
  assumes "level s = IntOff" and "ready_live s"
  shows "\<exists>r s'. FindNextToRun s = Inr (r, s') \<and> PureFindNext s = Inr (r, s)"
  using assms by (cases rule: FindNextToRun_cases) (auto simp add: PureFindNext_def assms(1))

theorem PureFindNext_agrees_witness:
  "level ex_ready = IntOff \<and> ready_live ex_ready \<and>
   PureFindNext ex_ready = Inr (fst (projr (FindNextToRun ex_ready)), ex_ready) \<and>
   \<not> isl (FindNextToRun ex_ready)"
proof -
  have h: "level ex_ready = IntOff" "ready_live ex_ready"
    by (simp_all add: eval_defs ex_defs)
  from PureFindNext_agrees [OF h] obtain r s' where
    "FindNextToRun ex_ready = Inr (r, s')" "PureFindNext ex_ready = Inr (r, ex_ready)"
    by blast
  with h show ?thesis by simp
qed

subsection \<open>C9: ReadyToRun asserts nothing about the thread's status\<close>

text \<open>
  C9, as the spec has it, fails: a thread whose status is \<open>TERMINATED\<close> is made \<open>READY\<close>
  and put into L3 without any complaint.
\<close>

theorem ReadyToRun_status_counterexample:
  "status (the (threads ex_boot 6)) = TERMINATED \<and>
   \<not> isl (ReadyToRun 6 ex_boot) \<and>
   L3Queue (projr (ReadyToRun 6 ex_boot)) = [6] \<and>
   status (the (threads (projr (ReadyToRun 6 ex_boot)) 6)) = READY"
  by (simp add: run_defs eval_defs ex_defs)

text \<open>
  C9, amended. \<open>ReadyToRun\<close> checks no status. For every live thread, whatever its status,
  a call with interrupts off succeeds, sets the status to \<open>READY\<close> and puts the thread
  into one of the ready queues; and the only assertion that a call can fail is the one on
  the interrupt level.
\<close>

theorem ReadyToRun_ignores_status:
  "(admissible t s \<longrightarrow>
      (\<exists>s'. ReadyToRun t s = Inr s' \<and> status (the (threads s' t)) = READY \<and>
            t \<in> set (L1Queue s' @ L2Queue s' @ L3Queue s'))) \<and>
   (\<forall>a. ReadyToRun t s = Inl (AssertionFailed a) \<longrightarrow> a = Interrupts_off \<and> level s \<noteq> IntOff)"
proof (intro conjI impI allI)
  assume "admissible t s"
  from ReadyToRun_threads [OF this] obtain s' where
    "ReadyToRun t s = Inr s'" "threads s' = store_77_79 t s"
    "t \<in> set (L1Queue s' @ L2Queue s' @ L3Queue s')"
    by blast
  then show "\<exists>s'. ReadyToRun t s = Inr s' \<and> status (the (threads s' t)) = READY \<and>
            t \<in> set (L1Queue s' @ L2Queue s' @ L3Queue s')"
    by (simp add: store_77_79_status)
next
  fix a
  assume "ReadyToRun t s = Inl (AssertionFailed a)"
  then show "a = Interrupts_off" "level s \<noteq> IntOff"
    by (simp_all add: ReadyToRun_only_assertion)
qed

theorem ReadyToRun_ignores_status_witness:
  "admissible 7 ex_boot \<and> status (the (threads ex_boot 7)) = RUNNING \<and>
   currentThread ex_boot \<noteq> 7 \<and>
   \<not> isl (ReadyToRun 7 ex_boot) \<and>
   status (the (threads (projr (ReadyToRun 7 ex_boot)) 7)) = READY \<and>
   7 \<in> set (L1Queue (projr (ReadyToRun 7 ex_boot)) @ L2Queue (projr (ReadyToRun 7 ex_boot))
              @ L3Queue (projr (ReadyToRun 7 ex_boot)))"
proof -
  have a: "admissible 7 ex_boot"
    by (simp add: eval_defs ex_defs)
  with ReadyToRun_ignores_status [of 7 ex_boot] obtain s' where
    "ReadyToRun 7 ex_boot = Inr s'" "status (the (threads s' 7)) = READY"
    "7 \<in> set (L1Queue s' @ L2Queue s' @ L3Queue s')"
    by blast
  with a show ?thesis
    by (simp add: ex_defs)
qed

subsection \<open>C10: what FindNextToRun leaves alone\<close>

text \<open>
  C10. With interrupts off, the queued pointers live and some queue non-empty,
  \<open>FindNextToRun\<close> removes the thread it returns from the front of exactly one queue, so
  the ready set shrinks by one; the two other queues, the slot \<open>toBeDestroyed\<close>, the
  thread objects and \<open>currentThread\<close> are as before. With all queues empty the state is
  returned unchanged.
\<close>

theorem FindNextToRun_frame:
  assumes "level s = IntOff" and "ready_live s"
  shows "\<exists>r s'. FindNextToRun s = Inr (r, s') \<and>
     (if L1Queue s = [] \<and> L2Queue s = [] \<and> L3Queue s = [] then r = None \<and> s' = s
      else \<exists>t. r = Some t \<and>
          ((L1Queue s = t # L1Queue s' \<and> L2Queue s' = L2Queue s \<and> L3Queue s' = L3Queue s) \<or>
           (L1Queue s' = L1Queue s \<and> L2Queue s = t # L2Queue s' \<and> L3Queue s' = L3Queue s) \<or>
           (L1Queue s' = L1Queue s \<and> L2Queue s' = L2Queue s \<and> L3Queue s = t # L3Queue s')) \<and>
          length (L1Queue s' @ L2Queue s' @ L3Queue s') + 1 =
            length (L1Queue s @ L2Queue s @ L3Queue s) \<and>
          toBeDestroyed s' = toBeDestroyed s \<and> threads s' = threads s \<and>
          currentThread s' = currentThread s)"
  using assms by (cases rule: FindNextToRun_cases) auto

theorem FindNextToRun_frame_witness:
  "level (ex_ready\<lparr>L1Queue := []\<rparr>) = IntOff \<and> ready_live (ex_ready\<lparr>L1Queue := []\<rparr>) \<and>
   fst (projr (FindNextToRun (ex_ready\<lparr>L1Queue := []\<rparr>))) = Some 4 \<and>
   L1Queue (snd (projr (FindNextToRun (ex_ready\<lparr>L1Queue := []\<rparr>)))) = [] \<and>
   L2Queue (snd (projr (FindNextToRun (ex_ready\<lparr>L1Queue := []\<rparr>)))) = [] \<and>
   L3Queue (snd (projr (FindNextToRun (ex_ready\<lparr>L1Queue := []\<rparr>)))) = [5] \<and>
   toBeDestroyed (snd (projr (FindNextToRun (ex_ready\<lparr>L1Queue := []\<rparr>)))) = None"
proof -
  let ?s = "ex_ready\<lparr>L1Queue := []\<rparr>"
  have h: "level ?s = IntOff" "ready_live ?s"
    by (simp_all add: eval_defs ex_defs)
  have r: "fst (projr (FindNextToRun ?s)) = Some 4"
    by (simp add: FindNextToRun_def and_then_def deref_def Let_def ex_defs)
  from FindNextToRun_frame [OF h] obtain r s' where
    e: "FindNextToRun ?s = Inr (r, s')" and
    f: "\<exists>t. r = Some t \<and>
          ((L1Queue ?s = t # L1Queue s' \<and> L2Queue s' = L2Queue ?s \<and> L3Queue s' = L3Queue ?s) \<or>
           (L1Queue s' = L1Queue ?s \<and> L2Queue ?s = t # L2Queue s' \<and> L3Queue s' = L3Queue ?s) \<or>
           (L1Queue s' = L1Queue ?s \<and> L2Queue s' = L2Queue ?s \<and> L3Queue ?s = t # L3Queue s')) \<and>
          toBeDestroyed s' = toBeDestroyed ?s"
    by (auto simp add: ex_ready_def ex_boot_def)
  from r e have "r = Some 4" by simp
  with f have "L1Queue s' = [] \<and> L2Queue s' = [] \<and> L3Queue s' = [5] \<and> toBeDestroyed s' = None"
    by (auto simp add: ex_ready_def ex_boot_def)
  with h r e show ?thesis by simp
qed

end
